theory Spec2Isabelle
  imports Main "HOL-Library.Word"
begin

unbundle bit_operations_syntax

section \<open>The Ginga block cipher (ginga.go)\<close>

text \<open>
  A shallow embedding of \<^verbatim>\<open>ginga.go\<close>: a 128-bit block cipher under a 256-bit key,
  built from add, rotate and xor on 32-bit words.

  Go's \<^verbatim>\<open>uint32\<close> is \<open>32 word\<close> (\<open>+\<close> and \<open>-\<close> wrap around), a \<^verbatim>\<open>byte\<close> is
  \<open>8 word\<close>, a slice \<^verbatim>\<open>[]byte\<close> is a list of bytes, and the fixed-size arrays
  \<^verbatim>\<open>[4]uint32\<close> and \<^verbatim>\<open>[8]uint32\<close> are lists of words updated by index.
  Go's \<^verbatim>\<open>int\<close> is modelled by \<open>int\<close>: the round index and the word index only
  flow into \<^verbatim>\<open>& 31\<close>, \<^verbatim>\<open>& 7\<close>, a rotation count and a conversion to
  \<^verbatim>\<open>uint32\<close>, all of which depend on the low bits alone, so a wrap-around of the
  machine \<^verbatim>\<open>int\<close> at \<open>2 ^ 32\<close> or \<open>2 ^ 64\<close> would not change any result (and the
  loops keep both indices below 16 anyway).
\<close>

type_synonym u8 = "8 word"
type_synonym u32 = "32 word"

subsection \<open>Standard-library operations used by the cipher\<close>

text \<open>
  \<^verbatim>\<open>bits.RotateLeft32(x, k)\<close> rotates \<open>x\<close> left by \<open>k mod 32\<close> bits; a negative
  \<open>k\<close> rotates right. The library computes \<^verbatim>\<open>s := uint(k) & 31\<close> and returns
  \<^verbatim>\<open>x<<s | x>>(32-s)\<close>; a shift by 32 gives 0 in Go, as \<open>drop_bit 32\<close> does
  on a 32-bit word.
\<close>

definition RotateLeft32 :: "u32 \<Rightarrow> int \<Rightarrow> u32" where
  "RotateLeft32 x k = (let s = nat (k AND 31) in push_bit s x OR drop_bit (32 - s) x)"

text \<open>
  \<^verbatim>\<open>binary.LittleEndian.Uint32(b)\<close> is
  \<^verbatim>\<open>uint32(b[0]) | uint32(b[1])<<8 | uint32(b[2])<<16 | uint32(b[3])<<24\<close>, and
  \<^verbatim>\<open>binary.LittleEndian.PutUint32(b, v)\<close> stores \<^verbatim>\<open>byte(v)\<close>, \<^verbatim>\<open>byte(v>>8)\<close>,
  \<^verbatim>\<open>byte(v>>16)\<close>, \<^verbatim>\<open>byte(v>>24)\<close> into \<open>b[0..3]\<close>. Both panic on a slice
  shorter than four bytes; every slice the cipher passes has exactly four bytes
  (lemma \<open>length_slice\<close> below), so that branch is not modelled.
\<close>

definition Uint32 :: "u8 list \<Rightarrow> u32" where
  "Uint32 b = ucast (b ! 0) OR push_bit 8 (ucast (b ! 1))
                OR push_bit 16 (ucast (b ! 2)) OR push_bit 24 (ucast (b ! 3))"

definition PutUint32 :: "u8 list \<Rightarrow> u32 \<Rightarrow> u8 list" where
  "PutUint32 b v = b[0 := ucast v, 1 := ucast (drop_bit 8 v),
                     2 := ucast (drop_bit 16 v), 3 := ucast (drop_bit 24 v)]"

text \<open>The slice expression \<^verbatim>\<open>b[lo:hi]\<close>, and a write through such a slice into \<open>b\<close>.\<close>

definition slice :: "'a list \<Rightarrow> nat \<Rightarrow> nat \<Rightarrow> 'a list" where
  "slice b lo hi = take (hi - lo) (drop lo b)"

definition store_slice :: "'a list \<Rightarrow> nat \<Rightarrow> 'a list \<Rightarrow> 'a list" where
  "store_slice b lo s = take lo b @ s @ drop (lo + length s) b"

text \<open>The builtin \<^verbatim>\<open>copy(dst, src)\<close> copies \<open>min (len dst) (len src)\<close> elements.\<close>

definition copy :: "'a list \<Rightarrow> 'a list \<Rightarrow> 'a list" where
  "copy dst src = (let n = min (length dst) (length src) in take n src @ drop n dst)"

text \<open>\<^verbatim>\<open>errors.New(text)\<close> and \<^verbatim>\<open>panic(text)\<close>.\<close>

datatype error = Error string

datatype panic = Panic string

subsection \<open>Constants and the ARX helpers\<close>

definition BlockSize :: nat where
  "BlockSize = 16"

definition Rounds :: int where
  "Rounds = 16"

definition add32 :: "u32 \<Rightarrow> u32 \<Rightarrow> u32" where
  "add32 x y = x + y"

definition sub32 :: "u32 \<Rightarrow> u32 \<Rightarrow> u32" where
  "sub32 x y = x - y"

definition rotl32 :: "u32 \<Rightarrow> int \<Rightarrow> u32" where
  "rotl32 x n = RotateLeft32 x n"

definition rotr32 :: "u32 \<Rightarrow> int \<Rightarrow> u32" where
  "rotr32 x n = RotateLeft32 x (- n)"

definition confuse32 :: "u32 \<Rightarrow> u32" where
  "confuse32 x0 =
     (let x1 = x0 XOR 0xA5A5A5A5;
          x2 = x1 + 0x3C3C3C3C;
          x3 = rotl32 x2 7
      in x3)"

definition deconfuse32 :: "u32 \<Rightarrow> u32" where
  "deconfuse32 x0 =
     (let x1 = rotr32 x0 7;
          x2 = x1 - 0x3C3C3C3C;
          x3 = x2 XOR 0xA5A5A5A5
      in x3)"

definition round32 :: "u32 \<Rightarrow> u32 \<Rightarrow> int \<Rightarrow> u32" where
  "round32 x0 k r =
     (let x1 = add32 x0 k;
          x2 = confuse32 x1;
          x3 = rotl32 x2 ((r + 3) AND 31);
          x4 = x3 XOR k;
          x5 = rotl32 x4 ((r + 5) AND 31)
      in x5)"

definition invRound32 :: "u32 \<Rightarrow> u32 \<Rightarrow> int \<Rightarrow> u32" where
  "invRound32 x0 k r =
     (let x1 = rotr32 x0 ((r + 5) AND 31);
          x2 = x1 XOR k;
          x3 = rotr32 x2 ((r + 3) AND 31);
          x4 = deconfuse32 x3;
          x5 = sub32 x4 k
      in x5)"

text \<open>
  \<^verbatim>\<open>subKey32(k *[8]uint32, round, i int)\<close>. The index \<^verbatim>\<open>(i+round)&7\<close> is always
  within the eight words of the key array.
\<close>

definition subKey32 :: "u32 list \<Rightarrow> int \<Rightarrow> int \<Rightarrow> u32" where
  "subKey32 k round i =
     (let base = k ! nat ((i + round) AND 7)
      in rotl32 (base XOR word_of_int (i * 73 + round * 91)) ((round + i) AND 31))"

text \<open>
  The mix layer updates the four words in place, one after the other, so each later
  assignment reads the words already updated.
\<close>

definition mixState32 :: "u32 list \<Rightarrow> u32 list" where
  "mixState32 s0 =
     (let s1 = s0[0 := s0 ! 0 XOR rotl32 (s0 ! 1) 5];
          s2 = s1[1 := s1 ! 1 XOR rotl32 (s1 ! 2) 11];
          s3 = s2[2 := s2 ! 2 XOR rotl32 (s2 ! 3) 17];
          s4 = s3[3 := s3 ! 3 XOR rotl32 (s3 ! 0) 23]
      in s4)"

definition invMixState32 :: "u32 list \<Rightarrow> u32 list" where
  "invMixState32 s0 =
     (let s1 = s0[3 := s0 ! 3 XOR rotl32 (s0 ! 0) 23];
          s2 = s1[2 := s1 ! 2 XOR rotl32 (s1 ! 3) 17];
          s3 = s2[1 := s2 ! 1 XOR rotl32 (s2 ! 2) 11];
          s4 = s3[0 := s3 ! 0 XOR rotl32 (s3 ! 1) 5]
      in s4)"

subsection \<open>Encrypt and Decrypt\<close>

text \<open>
  The loop \<^verbatim>\<open>for i := 0; i < n; i++ { w[i] = binary.LittleEndian.Uint32(b[i*4 : (i+1)*4]) }\<close>
  that loads the block (\<open>n = 4\<close>) and the key (\<open>n = 8\<close>), entered at \<open>i\<close>.
\<close>

function load_words :: "nat \<Rightarrow> nat \<Rightarrow> u8 list \<Rightarrow> u32 list \<Rightarrow> u32 list" where
  "load_words n i b w =
     (if i < n then load_words n (i + 1) b (w[i := Uint32 (slice b (i * 4) ((i + 1) * 4))])
      else w)"
  by pat_completeness auto
termination
  by (relation "measure (\<lambda>(n, i, b, w). n - i)") auto

text \<open>
  The loop \<^verbatim>\<open>for i := 0; i < 4; i++ { binary.LittleEndian.PutUint32(out[i*4:(i+1)*4], c[i]) }\<close>,
  which writes through the sub-slice into \<open>out\<close>.
\<close>

function store_words :: "nat \<Rightarrow> u32 list \<Rightarrow> u8 list \<Rightarrow> u8 list" where
  "store_words i c out =
     (if i < 4
      then store_words (i + 1) c
             (store_slice out (i * 4) (PutUint32 (slice out (i * 4) ((i + 1) * 4)) (c ! i)))
      else out)"
  by pat_completeness auto
termination
  by (relation "measure (\<lambda>(i, c, out). 4 - i)") auto

text \<open>
  The inner loop of a round of encryption, entered at \<open>i = 0\<close>:
  \<^verbatim>\<open>for i := 0; i < 4; i++ { subk := subKey32(&k, r, i); c[i] = round32(c[i], subk, r) }\<close>.
\<close>

function enc_words :: "int \<Rightarrow> u32 list \<Rightarrow> int \<Rightarrow> u32 list \<Rightarrow> u32 list" where
  "enc_words i k r c =
     (if i < 4
      then (let subk = subKey32 k r i
            in enc_words (i + 1) k r (c[nat i := round32 (c ! nat i) subk r]))
      else c)"
  by pat_completeness auto
termination
  by (relation "measure (\<lambda>(i, k, r, c). nat (4 - i))") auto

text \<open>The outer loop \<^verbatim>\<open>for r := 0; r < Rounds; r++ { ...; mixState32(&c) }\<close>.\<close>

function enc_rounds :: "int \<Rightarrow> u32 list \<Rightarrow> u32 list \<Rightarrow> u32 list" where
  "enc_rounds r k c =
     (if r < Rounds then enc_rounds (r + 1) k (mixState32 (enc_words 0 k r c)) else c)"
  by pat_completeness auto
termination
  by (relation "measure (\<lambda>(r, k, c). nat (Rounds - r))") auto

definition Encrypt :: "u8 list \<Rightarrow> u8 list \<Rightarrow> error + u8 list" where
  "Encrypt plain key =
     (if length plain \<noteq> BlockSize then Inl (Error ''ginga: plaintext must be 16 bytes'')
      else if length key \<noteq> 32 then Inl (Error ''ginga: key must be 32 bytes (256 bits)'')
      else
        (let c0 = load_words 4 0 plain (replicate 4 0);
             k = load_words 8 0 key (replicate 8 0);
             c = enc_rounds 0 k c0;
             out = store_words 0 c (replicate BlockSize 0)
         in Inr out))"

text \<open>
  The inner loop of a round of decryption, entered at \<open>i = 0\<close>:
  \<^verbatim>\<open>for i := 0; i < 4; i++ { subk := subKey32(&k, r, i); p[i] = invRound32(p[i], subk, r) }\<close>.
\<close>

function dec_words :: "int \<Rightarrow> u32 list \<Rightarrow> int \<Rightarrow> u32 list \<Rightarrow> u32 list" where
  "dec_words i k r p =
     (if i < 4
      then (let subk = subKey32 k r i
            in dec_words (i + 1) k r (p[nat i := invRound32 (p ! nat i) subk r]))
      else p)"
  by pat_completeness auto
termination
  by (relation "measure (\<lambda>(i, k, r, p). nat (4 - i))") auto

text \<open>The outer loop \<^verbatim>\<open>for r := Rounds - 1; r >= 0; r-- { invMixState32(&p); ... }\<close>.\<close>

function dec_rounds :: "int \<Rightarrow> u32 list \<Rightarrow> u32 list \<Rightarrow> u32 list" where
  "dec_rounds r k p =
     (if r \<ge> 0 then dec_rounds (r - 1) k (dec_words 0 k r (invMixState32 p)) else p)"
  by pat_completeness auto
termination
  by (relation "measure (\<lambda>(r, k, p). nat (r + 1))") auto

definition Decrypt :: "u8 list \<Rightarrow> u8 list \<Rightarrow> error + u8 list" where
  "Decrypt ciphertext key =
     (if length ciphertext \<noteq> BlockSize then Inl (Error ''ginga: ciphertext must be 16 bytes'')
      else if length key \<noteq> 32 then Inl (Error ''ginga: key must be 32 bytes (256 bits)'')
      else
        (let p0 = load_words 4 0 ciphertext (replicate 4 0);
             k = load_words 8 0 key (replicate 8 0);
             p = dec_rounds (Rounds - 1) k p0;
             out = store_words 0 p (replicate BlockSize 0)
         in Inr out))"

subsection \<open>The cipher.Block object\<close>

record gingaCipher =
  key :: "u8 list"

text \<open>\<^verbatim>\<open>NewCipher\<close> checks the key length once and stores a copy of the key.\<close>

definition NewCipher :: "u8 list \<Rightarrow> error + gingaCipher" where
  "NewCipher k =
     (if length k \<noteq> 32 then Inl (Error ''ginga: invalid key size (must be 32 bytes)'')
      else Inr \<lparr>key = [] @ k\<rparr>)"

definition gingaCipher_BlockSize :: "gingaCipher \<Rightarrow> nat" where
  "gingaCipher_BlockSize c = BlockSize"

text \<open>
  The methods \<^verbatim>\<open>Encrypt(dst, src)\<close> and \<^verbatim>\<open>Decrypt(dst, src)\<close> return nothing and write
  into \<open>dst\<close>; the model returns the new contents of \<open>dst\<close>, or the panic.
\<close>

definition gingaCipher_Encrypt :: "gingaCipher \<Rightarrow> u8 list \<Rightarrow> u8 list \<Rightarrow> panic + u8 list" where
  "gingaCipher_Encrypt c dst src =
     (if length src < BlockSize \<or> length dst < BlockSize
      then Inl (Panic ''ginga: input not full block'')
      else (case Encrypt (take BlockSize src) (key c) of
              Inl (Error e) \<Rightarrow> Inl (Panic (''ginga: encryption failed: '' @ e))
            | Inr out \<Rightarrow> Inr (copy dst out)))"

definition gingaCipher_Decrypt :: "gingaCipher \<Rightarrow> u8 list \<Rightarrow> u8 list \<Rightarrow> panic + u8 list" where
  "gingaCipher_Decrypt c dst src =
     (if length src < BlockSize \<or> length dst < BlockSize
      then Inl (Panic ''ginga: input not full block'')
      else (case Decrypt (take BlockSize src) (key c) of
              Inl (Error e) \<Rightarrow> Inl (Panic (''ginga: decryption failed: '' @ e))
            | Inr out \<Rightarrow> Inr (copy dst out)))"

subsection \<open>The subkey as the specification words it\<close>

text \<open>
  The specification's reference definition: \<open>rotateLeft\<close> is a circular rotation to the
  left; the base word is \<open>key[(i + r) mod 8]\<close>, the constant is
  \<open>i*73 + r*91\<close> truncated to 32 bits, the rotation amount is \<open>(r + i) mod 32\<close>.
\<close>

definition rotateLeft :: "u32 \<Rightarrow> nat \<Rightarrow> u32" where
  "rotateLeft x n = word_rotl n x"

definition subkey_spec :: "u32 list \<Rightarrow> int \<Rightarrow> int \<Rightarrow> u32" where
  "subkey_spec k r i =
     (let base = k ! nat ((i + r) mod 8);
          mask = rotateLeft (base XOR word_of_int ((i * 73 + r * 91) mod 2 ^ 32))
                   (nat ((r + i) mod 32))
      in mask)"

subsection \<open>A test vector\<close>

text \<open>
  The all-zero block and the all-zero key of the specification's golden-vector test,
  with the ciphertext that \<open>Encrypt\<close> computes for them.
\<close>

definition zero_block :: "u8 list" where
  "zero_block = [0, 0, 0, 0, 0, 0, 0, 0, 0, 0, 0, 0, 0, 0, 0, 0]"

definition zero_key :: "u8 list" where
  "zero_key = [0, 0, 0, 0, 0, 0, 0, 0, 0, 0, 0, 0, 0, 0, 0, 0,
               0, 0, 0, 0, 0, 0, 0, 0, 0, 0, 0, 0, 0, 0, 0, 0]"

definition zero_cipher :: "u8 list" where
  "zero_cipher = [241, 0, 180, 235, 29, 37, 253, 35, 127, 149, 126, 116, 107, 75, 37, 61]"

text \<open>
  The recursive equations of the loops are unfolded by hand, one iteration at a time.
\<close>

declare load_words.simps [simp del] store_words.simps [simp del]
  enc_words.simps [simp del] dec_words.simps [simp del]
  enc_rounds.simps [simp del] dec_rounds.simps [simp del]

section \<open>Rotations\<close>

text \<open>On Go's two's-complement \<^verbatim>\<open>int\<close>, masking with 31 or 7 is the remainder modulo 32 or 8.\<close>

lemma and_31_eq_mod: "(k::int) AND 31 = k mod 32"
proof -
  have "k AND mask 5 = k mod 2 ^ 5"
    by (simp only: take_bit_eq_mask [symmetric] take_bit_eq_mod)
  then show ?thesis by (simp add: mask_eq_exp_minus_1)
qed

lemma and_7_eq_mod: "(k::int) AND 7 = k mod 8"
proof -
  have "k AND mask 3 = k mod 2 ^ 3"
    by (simp only: take_bit_eq_mask [symmetric] take_bit_eq_mod)
  then show ?thesis by (simp add: mask_eq_exp_minus_1)
qed

text \<open>The shift-and-or of the library is a rotation to the left.\<close>

lemma shift_or_eq_word_rotl:
  "s < 32 \<Longrightarrow> push_bit s x OR drop_bit (32 - s) x = word_rotl s (x::u32)"
proof (rule bit_word_eqI)
  fix n assume s: "s < 32" and n: "n < LENGTH(32)"
  define m where "m = 32 - s"
  have L: "bit (push_bit s x OR drop_bit m x) n = ((s \<le> n \<and> bit x (n - s)) \<or> bit x (m + n))"
    using n by (simp add: bit_or_iff bit_push_bit_iff bit_drop_bit_eq)
  have R: "bit (word_rotl s x) n = bit x ((n + m) mod 32)"
    using n s by (simp add: bit_word_rotl_iff m_def)
  show "bit (push_bit s x OR drop_bit (32 - s) x) n = bit (word_rotl s x) n"
  proof (cases "s \<le> n")
    case True
    with s n have "(n + m) mod 32 = n - s" "\<not> m + n < 32"
      by (simp_all add: mod_if m_def)
    with True L R show ?thesis
      unfolding m_def [symmetric] using bit_imp_le_length [of x "m + n"] by auto
  next
    case False
    with s n have "(n + m) mod 32 = m + n"
      by (simp add: m_def)
    with False L R show ?thesis
      unfolding m_def [symmetric] by simp
  qed
qed

lemma RotateLeft32_eq_word_rotl: "RotateLeft32 x k = word_rotl (nat (k mod 32)) x"
proof -
  have "nat (k mod 32) < 32" by simp
  then show ?thesis
    by (simp add: RotateLeft32_def and_31_eq_mod shift_or_eq_word_rotl)
qed

lemma RotateLeft32_eq_word_roti: "RotateLeft32 x k = word_roti (- k) x"
proof -
  have "word_roti (- k) x = word_roti ((- k) mod 32) x"
    using word_roti_conv_mod [of "- k" x] by simp
  also have "(- k) mod 32 = (- (k mod 32)) mod 32"
    by (simp add: mod_minus_eq)
  also have "word_roti ((- (k mod 32)) mod 32) x = word_roti (- (k mod 32)) x"
    using word_roti_conv_mod [of "- (k mod 32)" x] by simp
  also have "\<dots> = word_rotl (nat (k mod 32)) x"
  proof (cases "k mod 32 = 0")
    case True
    have "word_rotr 0 x = x" "word_rotl 0 x = x"
      by (rule bit_word_eqI, simp add: bit_simps)+
    with True show ?thesis by simp
  next
    case False
    then have "\<not> k mod 32 \<le> 0"
      using pos_mod_sign [of 32 k] by simp
    then show ?thesis by simp
  qed
  finally show ?thesis
    by (simp only: RotateLeft32_eq_word_rotl)
qed

lemma rotr32_rotl32: "rotr32 (rotl32 x n) n = x"
  using word_roti_add [of n "- n" x]
  by (simp only: rotr32_def rotl32_def RotateLeft32_eq_word_roti minus_minus
        add.right_inverse word_roti_0)

lemma rotl32_rotr32: "rotl32 (rotr32 x n) n = x"
  using word_roti_add [of "- n" n x]
  by (simp only: rotr32_def rotl32_def RotateLeft32_eq_word_roti minus_minus
        add.left_inverse word_roti_0)

lemma xor_xor_cancel: "(x XOR k) XOR k = (x::u32)"
  by (simp add: xor.assoc)

section \<open>The confusion layer and the round function\<close>

lemma deconfuse32_confuse32: "deconfuse32 (confuse32 x) = x"
  by (simp add: deconfuse32_def confuse32_def rotr32_rotl32 xor_xor_cancel)

lemma confuse32_deconfuse32: "confuse32 (deconfuse32 x) = x"
  by (simp add: deconfuse32_def confuse32_def rotl32_rotr32 xor_xor_cancel)

lemma invRound32_round32: "invRound32 (round32 x k r) k r = x"
  by (simp add: invRound32_def round32_def add32_def sub32_def rotr32_rotl32
        deconfuse32_confuse32 xor_xor_cancel)

lemma round32_invRound32: "round32 (invRound32 x k r) k r = x"
  by (simp add: invRound32_def round32_def add32_def sub32_def rotl32_rotr32
        confuse32_deconfuse32 xor_xor_cancel)

text \<open>
  Claim C4. For every 32-bit value \<open>x\<close>, \<open>deconfuse32 (confuse32 x) = x\<close>; neither
  function takes a key or a round index.
\<close>

theorem C4_deconfuse32_inverts_confuse32: "deconfuse32 (confuse32 x) = x"
  by (rule deconfuse32_confuse32)

text \<open>
  Claim C2. For every 32-bit word \<open>x\<close>, every 32-bit subkey \<open>k\<close> and every round
  index \<open>r\<close> with \<open>0 \<le> r < 16\<close>, the inverse round function undoes the round
  function: \<open>invRound32 (round32 x k r) k r = x\<close>.
\<close>

theorem C2_invRound32_inverts_round32:
  "0 \<le> r \<Longrightarrow> r < 16 \<Longrightarrow> invRound32 (round32 x k r) k r = x"
  by (rule invRound32_round32)

theorem C2_witness:
  "(0::int) \<le> 3 \<and> (3::int) < 16 \<and> round32 1 2 3 = 0x3C5C3E3C
     \<and> invRound32 (round32 1 2 3) 2 3 = 1"
proof -
  have v: "round32 1 2 3 = 0x3C5C3E3C"
    by (simp add: round32_def add32_def confuse32_def rotl32_def RotateLeft32_def)
  from C2_invRound32_inverts_round32 [of 3 1 2] v show ?thesis
    by simp
qed

section \<open>The mix layer\<close>

lemma length4E:
  assumes "length s = 4"
  obtains a b c d where "s = [a, b, c, d]"
proof -
  from assms obtain a s1 where s: "s = a # s1" and "length s1 = 3"
    by (cases s) auto
  then obtain b s2 where s1: "s1 = b # s2" and "length s2 = 2"
    by (cases s1) auto
  then obtain c s3 where s2: "s2 = c # s3" and "length s3 = 1"
    by (cases s2) auto
  then obtain d where "s3 = [d]"
    by (cases s3) auto
  with s s1 s2 show ?thesis
    using that by simp
qed

text \<open>
  The four assignments written out: the last one reads the new word 0, and the inverse
  reads, at each step, the words it has already restored.
\<close>

lemma mixState32_4:
  "mixState32 [a, b, c, d] =
     [a XOR rotl32 b 5, b XOR rotl32 c 11, c XOR rotl32 d 17,
      d XOR rotl32 (a XOR rotl32 b 5) 23]"
  by (simp add: mixState32_def eval_nat_numeral)

lemma invMixState32_4:
  "invMixState32 [a, b, c, d] =
     [a XOR rotl32 (b XOR rotl32 (c XOR rotl32 (d XOR rotl32 a 23) 17) 11) 5,
      b XOR rotl32 (c XOR rotl32 (d XOR rotl32 a 23) 17) 11,
      c XOR rotl32 (d XOR rotl32 a 23) 17,
      d XOR rotl32 a 23]"
  by (simp add: invMixState32_def eval_nat_numeral)

lemma invMixState32_mixState32: "length s = 4 \<Longrightarrow> invMixState32 (mixState32 s) = s"
  by (erule length4E) (simp add: mixState32_4 invMixState32_4 xor_xor_cancel)

lemma mixState32_invMixState32: "length s = 4 \<Longrightarrow> mixState32 (invMixState32 s) = s"
  by (erule length4E) (simp add: mixState32_4 invMixState32_4 xor_xor_cancel)

lemma length_mixState32: "length (mixState32 s) = length s"
  by (simp add: mixState32_def Let_def)

lemma length_invMixState32: "length (invMixState32 s) = length s"
  by (simp add: invMixState32_def Let_def)

text \<open>
  Claim C3. For every 4-word state \<open>s\<close>, the mix layer followed by the inverse mix
  layer restores \<open>s\<close>. Both definitions perform the in-place assignments in the
  order of the source, each reading the words already updated.
\<close>

theorem C3_invMixState32_inverts_mixState32:
  "length s = 4 \<Longrightarrow> invMixState32 (mixState32 s) = s"
  by (rule invMixState32_mixState32)

theorem C3_witness:
  "length [1, 2, 3, 4 :: u32] = 4
     \<and> mixState32 [1, 2, 3, 4] = [0x41, 0x1802, 0x80003, 0x20800004]
     \<and> invMixState32 (mixState32 [1, 2, 3, 4]) = [1, 2, 3, 4]"
proof -
  have v: "mixState32 [1, 2, 3, 4] = [0x41, 0x1802, 0x80003, 0x20800004]"
    by (simp add: mixState32_4 rotl32_def RotateLeft32_def)
  from C3_invMixState32_inverts_mixState32 [of "[1, 2, 3, 4]"] v show ?thesis
    by simp
qed

section \<open>The key schedule\<close>

lemma word_of_int_trunc32: "(word_of_int (n mod 2 ^ 32) :: u32) = word_of_int n"
  by (simp add: word_of_int_eq_iff take_bit_eq_mod)

lemma rotl32_and_31: "rotl32 x (n AND 31) = word_rotl (nat (n mod 32)) x"
  by (simp add: rotl32_def RotateLeft32_eq_word_rotl and_31_eq_mod)

lemma subKey32_eq_subkey_spec: "subKey32 k r i = subkey_spec k r i"
  by (simp only: subKey32_def subkey_spec_def rotateLeft_def rotl32_and_31 and_7_eq_mod
        word_of_int_trunc32 Let_def)

text \<open>
  Claim C5. For every 8-word key, every round index \<open>r\<close> in \<open>[0, 16)\<close> and every
  word index \<open>i\<close> in \<open>[0, 4)\<close>, \<open>subKey32\<close> reads a word inside the key array and
  returns the value of the specification's reference definition. Being a function of
  \<open>(key, r, i)\<close> alone, it gives the encrypting and the decrypting loop the same subkey.
\<close>

theorem C5_subKey32_refines_spec:
  "length k = 8 \<Longrightarrow> 0 \<le> r \<Longrightarrow> r < 16 \<Longrightarrow> 0 \<le> i \<Longrightarrow> i < 4 \<Longrightarrow>
     nat ((i + r) AND 7) < length k \<and> subKey32 k r i = subkey_spec k r i"
proof -
  assume "length k = 8"
  moreover have "nat ((i + r) mod 8) < 8"
    by simp
  ultimately show ?thesis
    by (simp only: and_7_eq_mod subKey32_eq_subkey_spec simp_thms)
qed

theorem C5_witness:
  "length [1, 2, 3, 4, 5, 6, 7, 8 :: u32] = 8 \<and> (0::int) \<le> 3 \<and> (3::int) < 16
     \<and> (0::int) \<le> 2 \<and> (2::int) < 4
     \<and> subKey32 [1, 2, 3, 4, 5, 6, 7, 8] 3 2 = 13472
     \<and> subkey_spec [1, 2, 3, 4, 5, 6, 7, 8] 3 2 = 13472"
proof -
  have v: "subKey32 [1, 2, 3, 4, 5, 6, 7, 8 :: u32] 3 2 = 13472"
    by (simp add: subKey32_def rotl32_def RotateLeft32_def)
  from C5_subKey32_refines_spec [of "[1, 2, 3, 4, 5, 6, 7, 8]" 3 2] v show ?thesis
    by simp
qed

section \<open>The little-endian word codec\<close>

lemma Uint32_4:
  "Uint32 [b0, b1, b2, b3] =
     ucast b0 OR push_bit 8 (ucast b1) OR push_bit 16 (ucast b2) OR push_bit 24 (ucast b3)"
  by (simp add: Uint32_def eval_nat_numeral)

lemma PutUint32_4:
  "PutUint32 [b0, b1, b2, b3] v =
     [ucast v, ucast (drop_bit 8 v), ucast (drop_bit 16 v), ucast (drop_bit 24 v)]"
  by (simp add: PutUint32_def eval_nat_numeral)

lemma length_PutUint32: "length (PutUint32 b v) = length b"
  by (simp add: PutUint32_def)

lemma join_split_u32:
  "ucast (ucast v :: u8) OR push_bit 8 (ucast (ucast (drop_bit 8 v) :: u8))
     OR push_bit 16 (ucast (ucast (drop_bit 16 v) :: u8))
     OR push_bit 24 (ucast (ucast (drop_bit 24 v) :: u8)) = (v :: u32)"
proof (rule bit_word_eqI)
  fix n assume "n < LENGTH(32)"
  then have n: "n < 32" by simp
  then consider "n < 8" | "8 \<le> n" "n < 16" | "16 \<le> n" "n < 24" | "24 \<le> n" "n < 32"
    by linarith
  then show "bit (ucast (ucast v :: u8) OR push_bit 8 (ucast (ucast (drop_bit 8 v) :: u8))
     OR push_bit 16 (ucast (ucast (drop_bit 16 v) :: u8))
     OR push_bit 24 (ucast (ucast (drop_bit 24 v) :: u8)) :: u32) n = bit v n"
    by cases (auto simp: bit_simps)
qed

lemma split_join_u32:
  fixes b0 b1 b2 b3 :: u8
  defines "v \<equiv> (ucast b0 OR push_bit 8 (ucast b1) OR push_bit 16 (ucast b2)
                 OR push_bit 24 (ucast b3) :: u32)"
  shows "ucast v = b0" and "ucast (drop_bit 8 v) = b1"
    and "ucast (drop_bit 16 v) = b2" and "ucast (drop_bit 24 v) = b3"
  unfolding v_def
  by (rule bit_word_eqI; auto simp: bit_simps dest: bit_imp_le_length)+

text \<open>
  The slices \<^verbatim>\<open>b[i*4 : (i+1)*4]\<close> of the loops have four bytes whenever they lie
  inside \<open>b\<close>: for \<open>i < 4\<close> in a 16-byte block and \<open>i < 8\<close> in a 32-byte key.
\<close>

lemma length_slice: "(i + 1) * 4 \<le> length b \<Longrightarrow> length (slice b (i * 4) ((i + 1) * 4)) = 4"
  by (simp add: slice_def)

lemma length16E:
  assumes "length b = 16"
  obtains b0 b1 b2 b3 b4 b5 b6 b7 b8 b9 b10 b11 b12 b13 b14 b15
  where "b = [b0, b1, b2, b3, b4, b5, b6, b7, b8, b9, b10, b11, b12, b13, b14, b15]"
  using assms by (auto simp: eval_nat_numeral length_Suc_conv)

lemma load_words_block:
  "load_words 4 0 [b0, b1, b2, b3, b4, b5, b6, b7, b8, b9, b10, b11, b12, b13, b14, b15]
     (replicate 4 0) =
     [Uint32 [b0, b1, b2, b3], Uint32 [b4, b5, b6, b7],
      Uint32 [b8, b9, b10, b11], Uint32 [b12, b13, b14, b15]]"
  by (simp add: load_words.simps slice_def eval_nat_numeral)

lemma store_words_block:
  "store_words 0 [a, b, c, d] (replicate BlockSize 0) =
     PutUint32 [0, 0, 0, 0] a @ PutUint32 [0, 0, 0, 0] b
       @ PutUint32 [0, 0, 0, 0] c @ PutUint32 [0, 0, 0, 0] d"
  by (simp add: store_words.simps slice_def store_slice_def BlockSize_def PutUint32_4
        eval_nat_numeral)

section \<open>The rounds\<close>

lemma enc_words_4:
  "enc_words 0 k r [a, b, c, d] =
     [round32 a (subKey32 k r 0) r, round32 b (subKey32 k r 1) r,
      round32 c (subKey32 k r 2) r, round32 d (subKey32 k r 3) r]"
  by (simp add: enc_words.simps [of 0] enc_words.simps [of 1] enc_words.simps [of 2]
        enc_words.simps [of 3] enc_words.simps [of 4] eval_nat_numeral)

lemma dec_words_4:
  "dec_words 0 k r [a, b, c, d] =
     [invRound32 a (subKey32 k r 0) r, invRound32 b (subKey32 k r 1) r,
      invRound32 c (subKey32 k r 2) r, invRound32 d (subKey32 k r 3) r]"
  by (simp add: dec_words.simps [of 0] dec_words.simps [of 1] dec_words.simps [of 2]
        dec_words.simps [of 3] dec_words.simps [of 4] eval_nat_numeral)

lemma length_enc_words: "length (enc_words i k r c) = length c"
proof (induction i k r c rule: enc_words.induct)
  case (1 i k r c)
  show ?case
  proof (cases "i < 4")
    case True
    from "1.IH" [OF True refl] True show ?thesis
      by (subst enc_words.simps) simp
  next
    case False
    then show ?thesis
      by (subst enc_words.simps) simp
  qed
qed

lemma length_dec_words: "length (dec_words i k r p) = length p"
proof (induction i k r p rule: dec_words.induct)
  case (1 i k r p)
  show ?case
  proof (cases "i < 4")
    case True
    from "1.IH" [OF True refl] True show ?thesis
      by (subst dec_words.simps) simp
  next
    case False
    then show ?thesis
      by (subst dec_words.simps) simp
  qed
qed

lemma dec_words_enc_words: "length c = 4 \<Longrightarrow> dec_words 0 k r (enc_words 0 k r c) = c"
  by (erule length4E) (simp add: enc_words_4 dec_words_4 invRound32_round32)

lemma enc_words_dec_words: "length p = 4 \<Longrightarrow> enc_words 0 k r (dec_words 0 k r p) = p"
  by (erule length4E) (simp add: enc_words_4 dec_words_4 round32_invRound32)

lemma dec_round_enc_round:
  "length c = 4 \<Longrightarrow> dec_words 0 k r (invMixState32 (mixState32 (enc_words 0 k r c))) = c"
  by (simp add: invMixState32_mixState32 length_enc_words dec_words_enc_words)

lemma enc_round_dec_round:
  "length p = 4 \<Longrightarrow> mixState32 (enc_words 0 k r (dec_words 0 k r (invMixState32 p))) = p"
  by (simp add: mixState32_invMixState32 length_invMixState32 enc_words_dec_words)

lemma length_enc_rounds: "length (enc_rounds r k c) = length c"
proof (induction r k c rule: enc_rounds.induct)
  case (1 r k c)
  show ?case
  proof (cases "r < Rounds")
    case True
    from "1.IH" [OF True] True show ?thesis
      by (subst enc_rounds.simps) (simp add: length_mixState32 length_enc_words)
  next
    case False
    then show ?thesis
      by (subst enc_rounds.simps) simp
  qed
qed

lemma length_dec_rounds: "length (dec_rounds r k p) = length p"
proof (induction r k p rule: dec_rounds.induct)
  case (1 r k p)
  show ?case
  proof (cases "r \<ge> 0")
    case True
    from "1.IH" [OF True] True show ?thesis
      by (subst dec_rounds.simps) (simp add: length_invMixState32 length_dec_words)
  next
    case False
    then show ?thesis
      by (subst dec_rounds.simps) simp
  qed
qed

lemma dec_rounds_enc_rounds_from:
  "length c = 4 \<Longrightarrow> 0 \<le> r \<Longrightarrow> r \<le> Rounds \<Longrightarrow>
     dec_rounds (Rounds - 1) k (enc_rounds r k c) = dec_rounds (r - 1) k c"
proof (induction r k c rule: enc_rounds.induct)
  case (1 r k c)
  show ?case
  proof (cases "r < Rounds")
    case True
    let ?c' = "mixState32 (enc_words 0 k r c)"
    have len: "length ?c' = 4"
      using "1.prems" by (simp add: length_mixState32 length_enc_words)
    have r0: "0 \<le> r"
      using "1.prems" by simp
    have "dec_rounds (Rounds - 1) k (enc_rounds r k c)
            = dec_rounds (Rounds - 1) k (enc_rounds (r + 1) k ?c')"
      using True by (subst enc_rounds.simps) simp
    also have "\<dots> = dec_rounds (r + 1 - 1) k ?c'"
      using True len r0 by (intro "1.IH") simp_all
    also have "\<dots> = dec_rounds r k ?c'"
      by simp
    also have "\<dots> = dec_rounds (r - 1) k (dec_words 0 k r (invMixState32 ?c'))"
      using r0 by (subst dec_rounds.simps) simp
    also have "\<dots> = dec_rounds (r - 1) k c"
      using "1.prems" by (simp add: dec_round_enc_round)
    finally show ?thesis .
  next
    case False
    with "1.prems" have "r = Rounds" by simp
    then show ?thesis
      by (subst enc_rounds.simps) simp
  qed
qed

lemma enc_rounds_dec_rounds_from:
  "length p = 4 \<Longrightarrow> - 1 \<le> r \<Longrightarrow> r < Rounds \<Longrightarrow>
     enc_rounds 0 k (dec_rounds r k p) = enc_rounds (r + 1) k p"
proof (induction r k p rule: dec_rounds.induct)
  case (1 r k p)
  show ?case
  proof (cases "r \<ge> 0")
    case True
    let ?p' = "dec_words 0 k r (invMixState32 p)"
    have len: "length ?p' = 4"
      using "1.prems" by (simp add: length_invMixState32 length_dec_words)
    have "enc_rounds 0 k (dec_rounds r k p) = enc_rounds 0 k (dec_rounds (r - 1) k ?p')"
      using True by (subst dec_rounds.simps) simp
    also have "\<dots> = enc_rounds (r - 1 + 1) k ?p'"
      using True len "1.prems" by (intro "1.IH") simp_all
    also have "\<dots> = enc_rounds r k ?p'"
      by simp
    also have "\<dots> = enc_rounds (r + 1) k (mixState32 (enc_words 0 k r ?p'))"
      using "1.prems" by (subst enc_rounds.simps) simp
    also have "\<dots> = enc_rounds (r + 1) k p"
      using "1.prems" by (simp add: enc_round_dec_round)
    finally show ?thesis .
  next
    case False
    with "1.prems" have "r = - 1" by simp
    then show ?thesis
      by (subst dec_rounds.simps) simp
  qed
qed

lemma dec_rounds_enc_rounds:
  "length c = 4 \<Longrightarrow> dec_rounds (Rounds - 1) k (enc_rounds 0 k c) = c"
  using dec_rounds_enc_rounds_from [of c 0 k]
  by (simp add: Rounds_def dec_rounds.simps [of "- 1"])

lemma enc_rounds_dec_rounds:
  "length p = 4 \<Longrightarrow> enc_rounds 0 k (dec_rounds (Rounds - 1) k p) = p"
  using enc_rounds_dec_rounds_from [of p "Rounds - 1" k]
  by (simp add: Rounds_def enc_rounds.simps [of 16])

section \<open>Encrypt and Decrypt on whole blocks\<close>

lemma Uint32_PutUint32: "Uint32 (PutUint32 [b0, b1, b2, b3] v) = v"
  by (simp only: PutUint32_4 Uint32_4 join_split_u32)

lemma PutUint32_Uint32: "PutUint32 [z0, z1, z2, z3] (Uint32 [b0, b1, b2, b3]) = [b0, b1, b2, b3]"
  by (simp only: PutUint32_4 Uint32_4 split_join_u32)

lemma load_words_store_words:
  "length c = 4 \<Longrightarrow> load_words 4 0 (store_words 0 c (replicate BlockSize 0)) (replicate 4 0) = c"
proof (erule length4E)
  fix w0 w1 w2 w3 assume c: "c = [w0, w1, w2, w3]"
  have "store_words 0 c (replicate BlockSize 0) =
          PutUint32 [0, 0, 0, 0] w0 @ PutUint32 [0, 0, 0, 0] w1
            @ PutUint32 [0, 0, 0, 0] w2 @ PutUint32 [0, 0, 0, 0] w3"
    by (simp only: c store_words_block)
  then show ?thesis
    by (simp add: PutUint32_4 load_words_block c join_split_u32 Uint32_4)
qed

lemma store_words_load_words:
  "length b = 16 \<Longrightarrow> store_words 0 (load_words 4 0 b (replicate 4 0)) (replicate BlockSize 0) = b"
  by (erule length16E) (simp add: load_words_block store_words_block PutUint32_Uint32)

lemma length_store_words_block:
  "length c = 4 \<Longrightarrow> length (store_words 0 c (replicate BlockSize 0)) = 16"
  by (erule length4E) (simp add: store_words_block length_PutUint32)

lemma length_load_words: "length (load_words n i b w) = length w"
proof (induction n i b w rule: load_words.induct)
  case (1 n i b w)
  show ?case
  proof (cases "i < n")
    case True
    from "1.IH" [OF True] True show ?thesis
      by (subst load_words.simps) simp
  next
    case False
    then show ?thesis
      by (subst load_words.simps) simp
  qed
qed

lemma Encrypt_ok:
  "length plain = 16 \<Longrightarrow> length k = 32 \<Longrightarrow>
     Encrypt plain k =
       Inr (store_words 0 (enc_rounds 0 (load_words 8 0 k (replicate 8 0))
              (load_words 4 0 plain (replicate 4 0))) (replicate BlockSize 0))"
  by (simp add: Encrypt_def BlockSize_def)

lemma Decrypt_ok:
  "length ct = 16 \<Longrightarrow> length k = 32 \<Longrightarrow>
     Decrypt ct k =
       Inr (store_words 0 (dec_rounds (Rounds - 1) (load_words 8 0 k (replicate 8 0))
              (load_words 4 0 ct (replicate 4 0))) (replicate BlockSize 0))"
  by (simp add: Decrypt_def BlockSize_def)

lemma Decrypt_Encrypt_ex:
  assumes P: "length P = 16" and K: "length K = 32"
  shows "\<exists>C. Encrypt P K = Inr C \<and> Decrypt C K = Inr P"
proof -
  let ?k = "load_words 8 0 K (replicate 8 0)"
  let ?ci = "load_words 4 0 P (replicate 4 0)"
  let ?c = "enc_rounds 0 ?k ?ci"
  let ?C = "store_words 0 ?c (replicate BlockSize 0)"
  have c0: "length ?ci = 4"
    by (simp add: length_load_words)
  then have c: "length ?c = 4"
    by (simp add: length_enc_rounds)
  then have C: "length ?C = 16"
    by (rule length_store_words_block)
  have E: "Encrypt P K = Inr ?C"
    using P K by (rule Encrypt_ok)
  have "Decrypt ?C K =
          Inr (store_words 0 (dec_rounds (Rounds - 1) ?k (load_words 4 0 ?C (replicate 4 0)))
                 (replicate BlockSize 0))"
    using C K by (rule Decrypt_ok)
  also have "load_words 4 0 ?C (replicate 4 0) = ?c"
    using c by (rule load_words_store_words)
  also have "dec_rounds (Rounds - 1) ?k ?c = ?ci"
    using c0 by (rule dec_rounds_enc_rounds)
  also have "store_words 0 ?ci (replicate BlockSize 0) = P"
    using P by (rule store_words_load_words)
  finally have "Decrypt ?C K = Inr P" .
  with E show ?thesis by blast
qed

lemma Encrypt_Decrypt_ex:
  assumes C: "length C = 16" and K: "length K = 32"
  shows "\<exists>P. Decrypt C K = Inr P \<and> Encrypt P K = Inr C"
proof -
  let ?k = "load_words 8 0 K (replicate 8 0)"
  let ?pi = "load_words 4 0 C (replicate 4 0)"
  let ?p = "dec_rounds (Rounds - 1) ?k ?pi"
  let ?P = "store_words 0 ?p (replicate BlockSize 0)"
  have p0: "length ?pi = 4"
    by (simp add: length_load_words)
  then have p: "length ?p = 4"
    by (simp add: length_dec_rounds)
  then have P: "length ?P = 16"
    by (rule length_store_words_block)
  have D: "Decrypt C K = Inr ?P"
    using C K by (rule Decrypt_ok)
  have "Encrypt ?P K =
          Inr (store_words 0 (enc_rounds 0 ?k (load_words 4 0 ?P (replicate 4 0)))
                 (replicate BlockSize 0))"
    using P K by (rule Encrypt_ok)
  also have "load_words 4 0 ?P (replicate 4 0) = ?p"
    using p by (rule load_words_store_words)
  also have "enc_rounds 0 ?k ?p = ?pi"
    using p0 by (rule enc_rounds_dec_rounds)
  also have "store_words 0 ?pi (replicate BlockSize 0) = C"
    using C by (rule store_words_load_words)
  finally have "Encrypt ?P K = Inr C" .
  with D show ?thesis by blast
qed

lemma Encrypt_result:
  "Encrypt plain k =
     (if length plain \<noteq> 16 then Inl (Error ''ginga: plaintext must be 16 bytes'')
      else if length k \<noteq> 32 then Inl (Error ''ginga: key must be 32 bytes (256 bits)'')
      else Inr (store_words 0 (enc_rounds 0 (load_words 8 0 k (replicate 8 0))
              (load_words 4 0 plain (replicate 4 0))) (replicate BlockSize 0)))"
  by (simp add: Encrypt_def BlockSize_def)

lemma Decrypt_result:
  "Decrypt ct k =
     (if length ct \<noteq> 16 then Inl (Error ''ginga: ciphertext must be 16 bytes'')
      else if length k \<noteq> 32 then Inl (Error ''ginga: key must be 32 bytes (256 bits)'')
      else Inr (store_words 0 (dec_rounds (Rounds - 1) (load_words 8 0 k (replicate 8 0))
              (load_words 4 0 ct (replicate 4 0))) (replicate BlockSize 0)))"
  by (simp add: Decrypt_def BlockSize_def)

lemma length_Encrypt: "Encrypt plain k = Inr out \<Longrightarrow> length out = 16"
  by (auto simp: Encrypt_result length_store_words_block length_enc_rounds length_load_words
      split: if_splits)

lemma length_Decrypt: "Decrypt ct k = Inr out \<Longrightarrow> length out = 16"
  by (auto simp: Decrypt_result length_store_words_block length_dec_rounds length_load_words
      split: if_splits)

lemma Encrypt_Inr_ex:
  assumes "length plain = 16" and "length k = 32"
  shows "\<exists>out. Encrypt plain k = Inr out \<and> length out = 16"
proof -
  from assms obtain out where "Encrypt plain k = Inr out"
    by (simp add: Encrypt_result)
  then show ?thesis
    using length_Encrypt by blast
qed

lemma Decrypt_Inr_ex:
  assumes "length ct = 16" and "length k = 32"
  shows "\<exists>out. Decrypt ct k = Inr out \<and> length out = 16"
proof -
  from assms obtain out where "Decrypt ct k = Inr out"
    by (simp add: Decrypt_result)
  then show ?thesis
    using length_Decrypt by blast
qed

subsection \<open>The test vector, evaluated\<close>

lemma length_zero_block: "length zero_block = 16"
  by (simp add: zero_block_def)

lemma length_zero_key: "length zero_key = 32"
  by (simp add: zero_key_def)

lemma length_zero_cipher: "length zero_cipher = 16"
  by (simp add: zero_cipher_def)

lemma Encrypt_zero: "Encrypt zero_block zero_key = Inr zero_cipher"
  by code_simp

lemma Decrypt_zero: "Decrypt zero_cipher zero_key = Inr zero_block"
  using Decrypt_Encrypt_ex [OF length_zero_block length_zero_key]
  by (simp add: Encrypt_zero)

subsection \<open>Round trips\<close>

text \<open>
  Claim C1. For every 16-byte block \<open>P\<close> and every 32-byte key \<open>K\<close>, \<open>Encrypt\<close>
  succeeds with some ciphertext \<open>C\<close>, and \<open>Decrypt\<close> of \<open>C\<close> under \<open>K\<close> succeeds
  and returns \<open>P\<close>.
\<close>

theorem C1_Decrypt_inverts_Encrypt:
  "length P = 16 \<Longrightarrow> length K = 32 \<Longrightarrow> \<exists>C. Encrypt P K = Inr C \<and> Decrypt C K = Inr P"
  by (rule Decrypt_Encrypt_ex)

theorem C1_witness:
  "length zero_block = 16 \<and> length zero_key = 32
     \<and> Encrypt zero_block zero_key = Inr zero_cipher
     \<and> Decrypt zero_cipher zero_key = Inr zero_block"
  using C1_Decrypt_inverts_Encrypt [OF length_zero_block length_zero_key]
  by (simp add: Encrypt_zero length_zero_block length_zero_key)

text \<open>
  Claim C10. For every 16-byte block \<open>C\<close> and every 32-byte key \<open>K\<close>, the round
  trip also holds in the opposite order: \<open>Decrypt\<close> succeeds with some \<open>P\<close>, and
  \<open>Encrypt\<close> of \<open>P\<close> under \<open>K\<close> succeeds and returns \<open>C\<close>. With C1, each
  fixed key gives a bijection on 16-byte blocks.
\<close>

theorem C10_Encrypt_inverts_Decrypt:
  "length C = 16 \<Longrightarrow> length K = 32 \<Longrightarrow> \<exists>P. Decrypt C K = Inr P \<and> Encrypt P K = Inr C"
  by (rule Encrypt_Decrypt_ex)

theorem C10_witness:
  "length zero_cipher = 16 \<and> length zero_key = 32
     \<and> Decrypt zero_cipher zero_key = Inr zero_block
     \<and> Encrypt zero_block zero_key = Inr zero_cipher"
proof -
  from C10_Encrypt_inverts_Decrypt [OF length_zero_cipher length_zero_key]
  obtain P where "Decrypt zero_cipher zero_key = Inr P" and "Encrypt P zero_key = Inr zero_cipher"
    by blast
  then show ?thesis
    by (simp add: Decrypt_zero length_zero_cipher length_zero_key)
qed

subsection \<open>Size validation\<close>

text \<open>
  Claim C6. \<open>Encrypt\<close> returns an error exactly when the plaintext is not 16 bytes
  long or the key is not 32 bytes long; the error for a bad plaintext length differs
  from the error for a bad key length; an error result carries no output bytes; in every
  other case the result is exactly 16 bytes. \<open>Decrypt\<close> has the same contract for its
  ciphertext argument.
\<close>

theorem C6_size_validation:
  "isl (Encrypt b k) = (length b \<noteq> 16 \<or> length k \<noteq> 32)
   \<and> (length b \<noteq> 16 \<longrightarrow> Encrypt b k = Inl (Error ''ginga: plaintext must be 16 bytes''))
   \<and> (length b = 16 \<and> length k \<noteq> 32 \<longrightarrow>
        Encrypt b k = Inl (Error ''ginga: key must be 32 bytes (256 bits)''))
   \<and> (length b = 16 \<and> length k = 32 \<longrightarrow>
        (\<exists>out. Encrypt b k = Inr out \<and> length out = 16))
   \<and> Error ''ginga: plaintext must be 16 bytes'' \<noteq> Error ''ginga: key must be 32 bytes (256 bits)''
   \<and> isl (Decrypt b k) = (length b \<noteq> 16 \<or> length k \<noteq> 32)
   \<and> (length b \<noteq> 16 \<longrightarrow> Decrypt b k = Inl (Error ''ginga: ciphertext must be 16 bytes''))
   \<and> (length b = 16 \<and> length k \<noteq> 32 \<longrightarrow>
        Decrypt b k = Inl (Error ''ginga: key must be 32 bytes (256 bits)''))
   \<and> (length b = 16 \<and> length k = 32 \<longrightarrow>
        (\<exists>out. Decrypt b k = Inr out \<and> length out = 16))
   \<and> Error ''ginga: ciphertext must be 16 bytes'' \<noteq> Error ''ginga: key must be 32 bytes (256 bits)''"
proof (intro conjI impI; (elim conjE)?)
  assume "length b = 16" and "length k = 32"
  then show "\<exists>out. Encrypt b k = Inr out \<and> length out = 16"
    by (rule Encrypt_Inr_ex)
next
  assume "length b = 16" and "length k = 32"
  then show "\<exists>out. Decrypt b k = Inr out \<and> length out = 16"
    by (rule Decrypt_Inr_ex)
qed (simp_all add: Encrypt_result Decrypt_result)

theorem C6_witness:
  "Encrypt (tl zero_block) zero_key = Inl (Error ''ginga: plaintext must be 16 bytes'')
   \<and> Encrypt zero_block (tl zero_key) = Inl (Error ''ginga: key must be 32 bytes (256 bits)'')
   \<and> Encrypt zero_block zero_key = Inr zero_cipher \<and> length zero_cipher = 16
   \<and> Decrypt (tl zero_cipher) zero_key = Inl (Error ''ginga: ciphertext must be 16 bytes'')
   \<and> Decrypt zero_cipher (tl zero_key) = Inl (Error ''ginga: key must be 32 bytes (256 bits)'')
   \<and> Decrypt zero_cipher zero_key = Inr zero_block \<and> length zero_block = 16"
  using C6_size_validation [of "tl zero_block" zero_key]
    C6_size_validation [of zero_block "tl zero_key"]
    C6_size_validation [of zero_block zero_key]
    C6_size_validation [of "tl zero_cipher" zero_key]
    C6_size_validation [of zero_cipher "tl zero_key"]
    C6_size_validation [of zero_cipher zero_key]
  by (simp add: length_zero_block length_zero_key length_zero_cipher Encrypt_zero Decrypt_zero)

section \<open>The cipher object\<close>

lemma copy_block: "length out = 16 \<Longrightarrow> 16 \<le> length dst \<Longrightarrow> copy dst out = out @ drop 16 dst"
  by (simp add: copy_def min_def)

lemma NewCipher_Inr: "NewCipher k = Inr c \<Longrightarrow> length k = 32 \<and> key c = k"
  by (auto simp: NewCipher_def split: if_splits)

lemma NewCipher_zero_key: "NewCipher zero_key = Inr \<lparr>key = zero_key\<rparr>"
  by (simp add: NewCipher_def length_zero_key)

text \<open>
  Claim C7. \<open>BlockSize\<close> of a cipher object is 16. For the object \<open>c\<close> that
  \<open>NewCipher\<close> returns for a key \<open>k\<close>, and buffers \<open>src\<close> and \<open>dst\<close> of at least
  16 bytes, the method \<open>Encrypt\<close> leaves in \<open>dst\<close> the 16 bytes that the function
  \<open>Encrypt\<close> returns for the first 16 bytes of \<open>src\<close> under \<open>k\<close>, followed by the
  unchanged bytes of \<open>dst\<close> beyond the first 16; the method \<open>Decrypt\<close> does the same
  with the function \<open>Decrypt\<close>.
\<close>

theorem C7_cipher_object_refines_functions:
  "gingaCipher_BlockSize c = 16 \<and>
   (NewCipher k = Inr c \<and> 16 \<le> length src \<and> 16 \<le> length dst \<longrightarrow>
      (\<exists>out. Encrypt (take 16 src) k = Inr out \<and> length out = 16
          \<and> gingaCipher_Encrypt c dst src = Inr (out @ drop 16 dst)) \<and>
      (\<exists>out. Decrypt (take 16 src) k = Inr out \<and> length out = 16
          \<and> gingaCipher_Decrypt c dst src = Inr (out @ drop 16 dst)))"
proof (intro conjI impI; (elim conjE)?)
  show "gingaCipher_BlockSize c = 16"
    by (simp add: gingaCipher_BlockSize_def BlockSize_def)
next
  assume c: "NewCipher k = Inr c" and src: "16 \<le> length src" and dst: "16 \<le> length dst"
  from c have k: "length k = 32" "key c = k"
    by (simp_all add: NewCipher_Inr)
  from src have "length (take 16 src) = 16" by simp
  with k obtain out where out: "Encrypt (take 16 src) k = Inr out" "length out = 16"
    using Encrypt_Inr_ex by blast
  with src dst k show "\<exists>out. Encrypt (take 16 src) k = Inr out \<and> length out = 16
          \<and> gingaCipher_Encrypt c dst src = Inr (out @ drop 16 dst)"
    by (simp add: gingaCipher_Encrypt_def BlockSize_def copy_block)
next
  assume c: "NewCipher k = Inr c" and src: "16 \<le> length src" and dst: "16 \<le> length dst"
  from c have k: "length k = 32" "key c = k"
    by (simp_all add: NewCipher_Inr)
  from src have "length (take 16 src) = 16" by simp
  with k obtain out where out: "Decrypt (take 16 src) k = Inr out" "length out = 16"
    using Decrypt_Inr_ex by blast
  with src dst k show "\<exists>out. Decrypt (take 16 src) k = Inr out \<and> length out = 16
          \<and> gingaCipher_Decrypt c dst src = Inr (out @ drop 16 dst)"
    by (simp add: gingaCipher_Decrypt_def BlockSize_def copy_block)
qed

theorem C7_witness:
  "gingaCipher_BlockSize \<lparr>key = zero_key\<rparr> = 16
   \<and> NewCipher zero_key = Inr \<lparr>key = zero_key\<rparr>
   \<and> 16 \<le> length (zero_block @ [1, 2]) \<and> 16 \<le> length (zero_block @ [3, 4, 5])
   \<and> gingaCipher_Encrypt \<lparr>key = zero_key\<rparr> (zero_block @ [3, 4, 5]) (zero_block @ [1, 2])
       = Inr (zero_cipher @ [3, 4, 5])
   \<and> gingaCipher_Decrypt \<lparr>key = zero_key\<rparr> (zero_block @ [3, 4, 5]) (zero_cipher @ [1, 2])
       = Inr (zero_block @ [3, 4, 5])"
  using
    C7_cipher_object_refines_functions
      [of "\<lparr>key = zero_key\<rparr>" zero_key "zero_block @ [1, 2]" "zero_block @ [3, 4, 5]"]
    C7_cipher_object_refines_functions
      [of "\<lparr>key = zero_key\<rparr>" zero_key "zero_cipher @ [1, 2]" "zero_block @ [3, 4, 5]"]
  by (simp add: NewCipher_zero_key length_zero_block length_zero_cipher Encrypt_zero Decrypt_zero)

text \<open>
  Claim C8. For the object \<open>c\<close> that \<open>NewCipher\<close> returns, the methods \<open>Encrypt\<close>
  and \<open>Decrypt\<close> panic whenever \<open>src\<close> or \<open>dst\<close> is shorter than 16 bytes, and
  return normally, with the new contents of \<open>dst\<close>, whenever both have at least 16 bytes.
\<close>

theorem C8_cipher_object_panics:
  "NewCipher k = Inr c \<Longrightarrow>
     (length src < 16 \<or> length dst < 16 \<longrightarrow>
        gingaCipher_Encrypt c dst src = Inl (Panic ''ginga: input not full block'')
        \<and> gingaCipher_Decrypt c dst src = Inl (Panic ''ginga: input not full block''))
     \<and> (16 \<le> length src \<and> 16 \<le> length dst \<longrightarrow>
        (\<exists>d. gingaCipher_Encrypt c dst src = Inr d) \<and> (\<exists>d. gingaCipher_Decrypt c dst src = Inr d))"
proof -
  assume c: "NewCipher k = Inr c"
  then have k: "length k = 32" "key c = k"
    by (simp_all add: NewCipher_Inr)
  show ?thesis
  proof (cases "length src < 16 \<or> length dst < 16")
    case True
    then show ?thesis
      by (auto simp: gingaCipher_Encrypt_def gingaCipher_Decrypt_def BlockSize_def)
  next
    case False
    then have "length (take 16 src) = 16" by simp
    with k obtain o1 o2
      where "Encrypt (take 16 src) k = Inr o1" and "Decrypt (take 16 src) k = Inr o2"
      using Encrypt_Inr_ex Decrypt_Inr_ex by blast
    with False k show ?thesis
      by (simp add: gingaCipher_Encrypt_def gingaCipher_Decrypt_def BlockSize_def)
  qed
qed

theorem C8_witness:
  "NewCipher zero_key = Inr \<lparr>key = zero_key\<rparr>
   \<and> gingaCipher_Encrypt \<lparr>key = zero_key\<rparr> zero_block (tl zero_block)
       = Inl (Panic ''ginga: input not full block'')
   \<and> gingaCipher_Decrypt \<lparr>key = zero_key\<rparr> (tl zero_block) zero_cipher
       = Inl (Panic ''ginga: input not full block'')
   \<and> (\<exists>d. gingaCipher_Encrypt \<lparr>key = zero_key\<rparr> zero_block zero_block = Inr d)
   \<and> (\<exists>d. gingaCipher_Decrypt \<lparr>key = zero_key\<rparr> zero_block zero_block = Inr d)"
  using
    C8_cipher_object_panics [OF NewCipher_zero_key, of "tl zero_block" zero_block]
    C8_cipher_object_panics [OF NewCipher_zero_key, of zero_cipher "tl zero_block"]
    C8_cipher_object_panics [OF NewCipher_zero_key, of zero_block zero_block]
  by (simp add: NewCipher_zero_key length_zero_block length_zero_cipher)

end
